theory Spec2Isabelle
  imports Main "HOL-Library.Word"
begin

unbundle bit_operations_syntax

section \<open>Errors\<close>

text \<open>
  A Go \<open>error\<close> value is an \<open>error option\<close>, \<open>None\<close> for \<open>nil\<close>. The constructors are
  the errors the embedded code creates or tests for: \<open>io.EOF\<close>, the context's error
  \<open>ctx.Err()\<close>, \<open>errors.New msg\<close>, and a \<open>panic msg\<close>. Errors handed in by
  collaborators (index writers, tree differs) are arbitrary values of the type.
\<close>

datatype error = EOF | CtxErr | ErrorsNew string | Panic string

section \<open>dsess: TableWriter (write\_session.go)\<close>

text \<open>
  \<open>index.Writer\<close> is an interface of package \<open>sqle/index\<close>; its implementations are not
  among the sources. A writer is a state \<open>'w\<close> and the interface is the record of its
  methods, each returning the error and the writer's new state. \<open>'r\<close> is \<open>sql.Row\<close>.
\<close>

record ('w, 'r) Writer =
  w_Insert :: "'r \<Rightarrow> 'w \<Rightarrow> error option \<times> 'w"
  w_Delete :: "'r \<Rightarrow> 'w \<Rightarrow> error option \<times> 'w"
  w_Update :: "'r \<Rightarrow> 'r \<Rightarrow> 'w \<Rightarrow> error option \<times> 'w"
  w_DiscardChanges :: "error option \<Rightarrow> 'w \<Rightarrow> error option \<times> 'w"
  w_StatementComplete :: "'w \<Rightarrow> error option \<times> 'w"
  w_Close :: "'w \<Rightarrow> error option \<times> 'w"

text \<open>
  \<open>TableWriter\<close>: the primary writer, the secondary-index writers by name (a Go map,
  ranged over in some order: an association list, ranged over in list order), and the
  shared flag \<open>signal.closed\<close>. The auto-increment tracker \<open>thing\<close> is read by none of
  the methods embedded here and is left out.
\<close>

record 'w TableWriter =
  primary :: 'w
  indexes :: "(string \<times> 'w) list"
  closed :: bool

definition checkClosed :: "'w TableWriter \<Rightarrow> error option" where
  "checkClosed ed = (if closed ed then Some (ErrorsNew ''table editor was closed'') else None)"

text \<open>
  \<open>for _, dep := range ed.indexes { if err = dep.M(...); err != nil { return err } }\<close>:
  the first error ends the loop; the writers called so far keep their new states.
\<close>

fun range_indexes ::
  "('w \<Rightarrow> error option \<times> 'w) \<Rightarrow> (string \<times> 'w) list \<Rightarrow> error option \<times> (string \<times> 'w) list" where
  "range_indexes f [] = (None, [])"
| "range_indexes f ((name, dep) # deps) =
     (case f dep of
        (Some e, dep') \<Rightarrow> (Some e, (name, dep') # deps)
      | (None, dep') \<Rightarrow>
          (case range_indexes f deps of (err, deps') \<Rightarrow> (err, (name, dep') # deps')))"

text \<open>The common body of Insert, Delete, Update, DiscardChanges and StatementComplete.\<close>

definition guarded_write ::
  "('w \<Rightarrow> error option \<times> 'w) \<Rightarrow> 'w TableWriter \<Rightarrow> error option \<times> 'w TableWriter" where
  "guarded_write f ed =
     (case checkClosed ed of
        Some e \<Rightarrow> (Some e, ed)
      | None \<Rightarrow>
          (case range_indexes f (indexes ed) of
             (Some e, ix) \<Rightarrow> (Some e, ed\<lparr>indexes := ix\<rparr>)
           | (None, ix) \<Rightarrow>
               (case f (primary ed) of (err, p) \<Rightarrow> (err, ed\<lparr>primary := p, indexes := ix\<rparr>))))"

definition Insert :: "('w, 'r) Writer \<Rightarrow> 'r \<Rightarrow> 'w TableWriter \<Rightarrow> error option \<times> 'w TableWriter" where
  "Insert W sqlRow ed = guarded_write (w_Insert W sqlRow) ed"

definition Delete :: "('w, 'r) Writer \<Rightarrow> 'r \<Rightarrow> 'w TableWriter \<Rightarrow> error option \<times> 'w TableWriter" where
  "Delete W sqlRow ed = guarded_write (w_Delete W sqlRow) ed"

definition Update ::
  "('w, 'r) Writer \<Rightarrow> 'r \<Rightarrow> 'r \<Rightarrow> 'w TableWriter \<Rightarrow> error option \<times> 'w TableWriter" where
  "Update W oldRow newRow ed = guarded_write (w_Update W oldRow newRow) ed"

definition DiscardChanges ::
  "('w, 'r) Writer \<Rightarrow> error option \<Rightarrow> 'w TableWriter \<Rightarrow> error option \<times> 'w TableWriter" where
  "DiscardChanges W errorEncountered ed = guarded_write (w_DiscardChanges W errorEncountered) ed"

definition StatementComplete ::
  "('w, 'r) Writer \<Rightarrow> 'w TableWriter \<Rightarrow> error option \<times> 'w TableWriter" where
  "StatementComplete W ed = guarded_write (w_StatementComplete W) ed"

text \<open>
  \<open>Close\<close>: every index writer is closed; a non-nil \<open>cerr\<close> assigns \<open>err = nil\<close>; then
  the flag is set and \<open>err\<close> returned. The loop threads \<open>err\<close> as the source does.
\<close>

fun close_indexes ::
  "('w \<Rightarrow> error option \<times> 'w) \<Rightarrow> (string \<times> 'w) list \<Rightarrow> error option
     \<Rightarrow> error option \<times> (string \<times> 'w) list" where
  "close_indexes cl [] err = (err, [])"
| "close_indexes cl ((name, ie) # rest) err =
     (case cl ie of
        (cerr, ie') \<Rightarrow>
          (case close_indexes cl rest (if cerr \<noteq> None then None else err) of
             (err', rest') \<Rightarrow> (err', (name, ie') # rest')))"

definition Close :: "('w, 'r) Writer \<Rightarrow> 'w TableWriter \<Rightarrow> error option \<times> 'w TableWriter" where
  "Close W ed =
     (case close_indexes (w_Close W) (indexes ed) None of
        (err, ix) \<Rightarrow> (err, ed\<lparr>indexes := ix, closed := True\<rparr>))"

text \<open>A secondary-index writer whose Close always fails, for the concrete instance below.\<close>

definition failing_Writer :: "(nat, nat) Writer" where
  "failing_Writer =
     \<lparr> w_Insert = (\<lambda>r w. (None, w + r)),
       w_Delete = (\<lambda>r w. (None, w - r)),
       w_Update = (\<lambda>old new w. (None, w - old + new)),
       w_DiscardChanges = (\<lambda>e w. (None, 0)),
       w_StatementComplete = (\<lambda>w. (None, w)),
       w_Close = (\<lambda>w. (Some (ErrorsNew ''close failed''), w)) \<rparr>"

section \<open>val: tuples and the tuple builder (tuple\_builder.go)\<close>

type_synonym byte = "8 word"

text \<open>
  A \<open>[]byte\<close> that may be nil: \<open>None\<close> is nil, which as a field is NULL.
\<close>

type_synonym field = "byte list option"

text \<open>
  Modelled from the spec: \<open>val.Tuple\<close>, \<open>NewTuple\<close> and \<open>Tuple.GetField\<close> (tuple.go) are not
  among the sources. The spec gives a tuple as a byte buffer that round-trips through the
  codec and whose fields, read by index, are the stored bytes or NULL. A tuple is kept at
  that level: the list of its fields; \<open>None\<close> is the nil tuple. \<open>NewTuple\<close> copies the
  values it is given; \<open>GetField\<close> returns the i-th of them, or NULL. The size cap of
  the spec shows where the builder writes a field into its fixed buffer (\<open>put_encoded\<close>
  below); \<open>NewTuple\<close> is taken to succeed on the values it is given.
\<close>

type_synonym Tuple = "field list option"

definition NewTuple :: "field list \<Rightarrow> Tuple" where
  "NewTuple values = Some values"

definition GetField :: "Tuple \<Rightarrow> nat \<Rightarrow> field" where
  "GetField tup i =
     (case tup of None \<Rightarrow> None | Some fs \<Rightarrow> (if i < length fs then fs ! i else None))"

text \<open>
  Modelled from the spec: \<open>val.Type\<close>, \<open>val.TupleDesc\<close> and \<open>TupleDesc.Count\<close>
  (tuple\_descriptor.go) are not among the sources. A descriptor is the ordered list of
  its fields' encoding and nullability, as far as the builder reads them; \<open>Count\<close> is
  the number of fields. The encodings are those \<open>PutField\<close> switches on.
\<close>

datatype Encoding =
  Int8Enc | Uint8Enc | Int16Enc | Uint16Enc | Int24Enc | Uint24Enc | Int32Enc | Uint32Enc
  | Int64Enc | Uint64Enc | Float32Enc | Float64Enc | StringEnc | BytesEnc

record Type =
  Enc :: Encoding
  Nullable :: bool

record TupleDesc =
  Types :: "Type list"

definition Count :: "TupleDesc \<Rightarrow> nat" where
  "Count desc = length (Types desc)"

text \<open>
  \<open>TupleBuilder\<close>. \<open>buf\<close> is the array \<open>[MaxTupleDataSize]byte\<close>, \<open>tb_fields\<close> the array
  \<open>fields [MaxTupleFields][]byte\<close>. A field is nil or a slice of \<open>buf\<close>, kept as (offset,
  length) so that it reads whatever \<open>buf\<close> holds now. The two constants are declared
  outside the sources: they are the lengths of the two arrays, parameters of
  \<open>NewTupleBuilder\<close>. So is the type \<open>ByteSize\<close> of \<open>pos\<close>, kept as a natural number.
\<close>

record TupleBuilder =
  Desc :: TupleDesc
  buf :: "byte list"
  pos :: nat
  tb_fields :: "(nat \<times> nat) option list"

definition NewTupleBuilder :: "nat \<Rightarrow> nat \<Rightarrow> TupleDesc \<Rightarrow> TupleBuilder" where
  "NewTupleBuilder MaxTupleDataSize MaxTupleFields desc =
     \<lparr> Desc = desc, buf = replicate MaxTupleDataSize 0, pos = 0,
       tb_fields = replicate MaxTupleFields None \<rparr>"

definition slice_bytes :: "byte list \<Rightarrow> (nat \<times> nat) option \<Rightarrow> field" where
  "slice_bytes b sl = (case sl of None \<Rightarrow> None | Some (off, n) \<Rightarrow> Some (take n (drop off b)))"

definition Recycle :: "TupleBuilder \<Rightarrow> TupleBuilder" where
  "Recycle tb = tb\<lparr>pos := 0\<rparr>"

text \<open>
  The loop of \<open>Build\<close> over \<open>tb.Desc.Types\<close>, from index \<open>i\<close>: \<open>tb.fields[i]\<close> is read
  only for a non-nullable type (\<open>&&\<close> short-circuits), and reading past the array panics.
\<close>

fun Build_check :: "Type list \<Rightarrow> nat \<Rightarrow> (nat \<times> nat) option list \<Rightarrow> error option" where
  "Build_check [] i fs = None"
| "Build_check (typ # typs) i fs =
     (if \<not> Nullable typ then
        (if length fs \<le> i then Some (Panic ''index out of range'')
         else if fs ! i = None then Some (Panic ''cannot write NULL to non-NULL field'')
         else Build_check typs (Suc i) fs)
      else Build_check typs (Suc i) fs)"

definition Build :: "TupleBuilder \<Rightarrow> error + (Tuple \<times> TupleBuilder)" where
  "Build tb =
     (case Build_check (Types (Desc tb)) 0 (tb_fields tb) of
        Some e \<Rightarrow> Inl e
      | None \<Rightarrow>
          (if length (tb_fields tb) < Count (Desc tb) then Inl (Panic ''slice bounds out of range'')
           else Inr (NewTuple (map (slice_bytes (buf tb)) (take (Count (Desc tb)) (tb_fields tb))),
                     Recycle tb)))"

text \<open>
  What every \<open>Put...\<close> method does around its encoder: \<open>expectEncoding\<close> (not among the
  sources: it panics unless field \<open>i\<close> has the encoding), \<open>tb.fields[i] = tb.buf[pos :
  pos+sz]\<close>, the write of the encoded bytes into that slice, \<open>tb.pos += sz\<close>.
\<close>

definition put_encoded :: "nat \<Rightarrow> Encoding \<Rightarrow> byte list \<Rightarrow> TupleBuilder \<Rightarrow> error + TupleBuilder" where
  "put_encoded i enc bs tb =
     (if length (Types (Desc tb)) \<le> i then Inl (Panic ''index out of range'')
      else if Enc (Types (Desc tb) ! i) \<noteq> enc then Inl (Panic ''incorrect value encoding'')
      else if length (buf tb) < pos tb + length bs then Inl (Panic ''slice bounds out of range'')
      else if length (tb_fields tb) \<le> i then Inl (Panic ''index out of range'')
      else Inr (tb\<lparr> tb_fields := (tb_fields tb)[i := Some (pos tb, length bs)],
                    buf := take (pos tb) (buf tb) @ bs @ drop (pos tb + length bs) (buf tb),
                    pos := pos tb + length bs \<rparr>))"

text \<open>
  Modelled from the spec: \<open>WriteUint8\<close> and \<open>writeBytes\<close> (codec.go) are not among the
  sources; a fixed-width field contributes its native bytes, a variable-width field its
  raw bytes.
\<close>

definition PutUint8 :: "nat \<Rightarrow> byte \<Rightarrow> TupleBuilder \<Rightarrow> error + TupleBuilder" where
  "PutUint8 i v tb = put_encoded i Uint8Enc [v] tb"

definition PutBytes :: "nat \<Rightarrow> byte list \<Rightarrow> TupleBuilder \<Rightarrow> error + TupleBuilder" where
  "PutBytes i v tb = put_encoded i BytesEnc v tb"

section \<open>prolly: meta values\<close>

text \<open>
  Modelled from the spec: \<open>val.WriteUint48\<close>, \<open>val.ReadUint48\<close> (codec.go) and \<open>hash.New\<close>
  are not among the sources. The count field is the six-byte array \<open>cnt\<close>: the six low
  bytes of the count, least significant first. A count that needs more than 48 bits has
  no six-byte form and the write panics. Both functions check the size of the slice they
  work on. A hash is 20 bytes; \<open>hash.New\<close> copies them.
\<close>

definition maxUint48 :: "64 word" where
  "maxUint48 = 2 ^ 48 - 1"

definition WriteUint48 :: "64 word \<Rightarrow> error + byte list" where
  "WriteUint48 u =
     (if maxUint48 < u then Inl (Panic ''uint is greater than max uint48'')
      else Inr (map (\<lambda>i. ucast (drop_bit (8 * i) u)) [0 ..< 6]))"

definition ReadUint48 :: "field \<Rightarrow> error + 64 word" where
  "ReadUint48 v =
     (case v of
        None \<Rightarrow> Inl (Panic ''unexpected size'')
      | Some bs \<Rightarrow>
          (if length bs \<noteq> 6 then Inl (Panic ''unexpected size'')
           else Inr (horner_sum ucast 256 bs)))"

type_synonym Hash = "byte list"

definition hash_New :: "field \<Rightarrow> error + Hash" where
  "hash_New data =
     (case data of
        None \<Rightarrow> Inl (Panic ''hash.New: wrong length'')
      | Some bs \<Rightarrow> (if length bs = 20 then Inr bs else Inl (Panic ''hash.New: wrong length'')))"

definition metaValueCountIdx :: nat where
  "metaValueCountIdx = 0"

definition metaValueRefIdx :: nat where
  "metaValueRefIdx = 1"

text \<open>\<open>metaValue\<close> is \<open>val.Tuple\<close>. The buffer pool only allocates and is left out.\<close>

definition newMetaValue :: "64 word \<Rightarrow> Hash \<Rightarrow> error + Tuple" where
  "newMetaValue count ref =
     (case WriteUint48 count of
        Inl e \<Rightarrow> Inl e
      | Inr cnt \<Rightarrow> Inr (NewTuple [Some cnt, Some ref]))"

definition GetCumulativeCount :: "Tuple \<Rightarrow> error + 64 word" where
  "GetCumulativeCount mt = ReadUint48 (GetField mt metaValueCountIdx)"

definition GetRef :: "Tuple \<Rightarrow> error + Hash" where
  "GetRef mt = hash_New (GetField mt metaValueRefIdx)"


section \<open>prolly: maps, the overlay and mutable maps\<close>

text \<open>
  In this package a key or value is a \<open>val.Tuple\<close> whose bytes are never inspected, only
  compared and tested for nil. Key tuples are a type \<open>'k\<close> with a linear order (the
  comparison under the key descriptor), value tuples a type \<open>'v\<close>; where the code passes
  a tuple that may be nil the type is \<open>'k option\<close> or \<open>'v option\<close>, \<open>None\<close> for nil.
\<close>

text \<open>
  Modelled from the spec: \<open>Map\<close> with \<open>Map.Get\<close> and \<open>Map.Count\<close> (map.go), the overlay
  \<open>memoryMap\<close> with its skip list (memory\_map.go, package skip) and
  \<open>materializeMutations\<close> are not among the sources. A map is identified by its content:
  the key-value pairs of its leaves in ascending key order, keys strictly increasing.
  \<open>Count\<close> is their number. \<open>Get\<close> passes the pair stored under the key to the
  callback, or a nil pair. The callback is a closure: it returns an error and updates
  the state \<open>'s\<close> it captured.
\<close>

type_synonym ('k, 'v) Map = "('k \<times> 'v) list"

type_synonym ('k, 'v, 's) KeyValueFn = "'k option \<Rightarrow> 'v option \<Rightarrow> 's \<Rightarrow> error option \<times> 's"

definition Map_Count :: "('k, 'v) Map \<Rightarrow> nat" where
  "Map_Count mp = length mp"

definition Map_Get :: "('k, 'v) Map \<Rightarrow> 'k \<Rightarrow> ('k, 'v, 's) KeyValueFn \<Rightarrow> 's \<Rightarrow> error option \<times> 's" where
  "Map_Get mp key cb s =
     (case map_of mp key of
        None \<Rightarrow> cb None None s
      | Some v \<Rightarrow> cb (Some key) (Some v) s)"

text \<open>
  Modelled from the spec: the overlay \<open>memoryMap\<close> and its skip list are not among the
  sources. The overlay is an ordered map from key tuple to a value tuple or a tombstone
  (a nil value): \<open>Put\<close> inserts the entry in key order or replaces the entry of an equal
  key. \<open>list_Get\<close> is the skip list's lookup, with its found flag; \<open>mutations\<close> yields
  the entries in ascending key order. The bound \<open>maxPending\<close> of the spec is not part of
  \<open>Put\<close>: the test \<open>testBulkInserts\<close> puts ten times the size of the map, 100000 edits
  at the largest scale, into one \<open>MutableMap\<close> and finds every one of them in the
  materialized map, so the overlay takes more than \<open>maxPending\<close> edits.
\<close>

type_synonym ('k, 'v) memoryMap = "('k \<times> 'v option) list"

definition maxPending :: nat where
  "maxPending = 64 * 1024"

definition newMemoryMap :: "('k, 'v) memoryMap" where
  "newMemoryMap = []"

fun list_Put :: "'k::linorder \<Rightarrow> 'v option \<Rightarrow> ('k, 'v) memoryMap \<Rightarrow> ('k, 'v) memoryMap" where
  "list_Put key val [] = [(key, val)]"
| "list_Put key val ((k, v) # rest) =
     (if key < k then (key, val) # (k, v) # rest
      else if key = k then (key, val) # rest
      else (k, v) # list_Put key val rest)"

definition list_Get :: "('k, 'v) memoryMap \<Rightarrow> 'k \<Rightarrow> 'v option \<times> bool" where
  "list_Get mm key = (case map_of mm key of None \<Rightarrow> (None, False) | Some val \<Rightarrow> (val, True))"

definition memoryMap_Put ::
  "('k::linorder, 'v) memoryMap \<Rightarrow> 'k \<Rightarrow> 'v option \<Rightarrow> ('k, 'v) memoryMap" where
  "memoryMap_Put mm key val = list_Put key val mm"

definition mutations :: "('k, 'v) memoryMap \<Rightarrow> ('k \<times> 'v option) list" where
  "mutations mm = mm"

text \<open>
  Modelled from the spec: \<open>materializeMutations\<close>, as section 4.I gives it. It walks
  the persistent pairs and the mutations in ascending order and feeds a new chunker,
  whose tree holds exactly the pairs it is fed, in order. The smaller key goes first; a
  mutation of an equal key replaces the pair, or drops it when it is a tombstone; a
  tombstone of an absent key is ignored; what remains of either side is drained.
\<close>

fun materializeMutations ::
  "('k::linorder, 'v) Map \<Rightarrow> ('k \<times> 'v option) list \<Rightarrow> ('k, 'v) Map" where
  "materializeMutations [] [] = []"
| "materializeMutations ((ck, cv) # cur) [] = (ck, cv) # materializeMutations cur []"
| "materializeMutations [] ((ok, ov) # muts) =
     (case ov of
        None \<Rightarrow> materializeMutations [] muts
      | Some v \<Rightarrow> (ok, v) # materializeMutations [] muts)"
| "materializeMutations ((ck, cv) # cur) ((ok, ov) # muts) =
     (if ck < ok then (ck, cv) # materializeMutations cur ((ok, ov) # muts)
      else if ok < ck then
        (case ov of
           None \<Rightarrow> materializeMutations ((ck, cv) # cur) muts
         | Some v \<Rightarrow> (ok, v) # materializeMutations ((ck, cv) # cur) muts)
      else
        (case ov of
           None \<Rightarrow> materializeMutations cur muts
         | Some v \<Rightarrow> (ok, v) # materializeMutations cur muts))"

text \<open>
  \<open>MutableMap\<close> (fields \<open>m\<close> and \<open>overlay\<close>). The overlay is reached through a pointer,
  so \<open>Put\<close> returns the mutable map with the overlay's new state, and the error.
  \<open>Map\<close> returns what \<open>materializeMutations\<close> returns; with the node store left out
  that is the map alone.
\<close>

record ('k, 'v) MutableMap =
  mut_m :: "('k, 'v) Map"
  mut_overlay :: "('k, 'v) memoryMap"

definition newMutableMap :: "('k, 'v) Map \<Rightarrow> ('k, 'v) MutableMap" where
  "newMutableMap mp = \<lparr> mut_m = mp, mut_overlay = newMemoryMap \<rparr>"

definition MutableMap_Map :: "('k::linorder, 'v) MutableMap \<Rightarrow> ('k, 'v) Map" where
  "MutableMap_Map mut = materializeMutations (mut_m mut) (mutations (mut_overlay mut))"

definition MutableMap_Put ::
  "('k::linorder, 'v) MutableMap \<Rightarrow> 'k \<Rightarrow> 'v option \<Rightarrow> ('k, 'v) MutableMap \<times> error option" where
  "MutableMap_Put mut key val =
     (mut\<lparr>mut_overlay := memoryMap_Put (mut_overlay mut) key val\<rparr>, None)"

definition MutableMap_Get ::
  "('k, 'v) MutableMap \<Rightarrow> 'k \<Rightarrow> ('k, 'v, 's) KeyValueFn \<Rightarrow> 's \<Rightarrow> error option \<times> 's" where
  "MutableMap_Get mut key cb s =
     (case list_Get (mut_overlay mut) key of
        (val, True) \<Rightarrow> cb (if val = None then None else Some key) val s
      | (val, False) \<Rightarrow> Map_Get (mut_m mut) key cb s)"

text \<open>
  \<open>Has\<close>: the callback assigns the named result \<open>ok\<close>, which starts as false.
\<close>

definition MutableMap_Has :: "('k, 'v) MutableMap \<Rightarrow> 'k \<Rightarrow> bool \<times> error option" where
  "MutableMap_Has mut key =
     (case MutableMap_Get mut key (\<lambda>k v ok. (None, k \<noteq> None)) False of
        (err, ok) \<Rightarrow> (ok, err))"

section \<open>prolly: three-way merge (sendPatches)\<close>

text \<open>
  Modelled from the spec: \<open>Diff\<close>, \<open>DiffType\<close> and \<open>treeDiffer\<close> (tree\_differ.go) are not
  among the sources. A diff has a type, a key and the values it leads from and to. A
  differ is the finite stream of what its \<open>Next\<close> will return: a diff or an error;
  at the end of the stream \<open>Next\<close> returns \<open>io.EOF\<close>, with the zero \<open>Diff\<close> (which
  the walk never reads).
\<close>

datatype DiffType = AddedDiff | ModifiedDiff | RemovedDiff

record ('k, 'v) Diff =
  Type :: DiffType
  Key :: "'k option"
  From :: "'v option"
  To :: "'v option"

definition zeroDiff :: "('k, 'v) Diff" where
  "zeroDiff = \<lparr> Type = AddedDiff, Key = None, From = None, To = None \<rparr>"

type_synonym ('k, 'v) treeDiffer = "(error + ('k, 'v) Diff) list"

fun Next :: "('k, 'v) treeDiffer \<Rightarrow> (('k, 'v) Diff \<times> error option) \<times> ('k, 'v) treeDiffer" where
  "Next [] = ((zeroDiff, Some EOF), [])"
| "Next (Inr d # rest) = ((d, None), rest)"
| "Next (Inl e # rest) = ((zeroDiff, Some e), rest)"

text \<open>
  \<open>TupleMergeFn\<close>, and the key comparison \<open>l.cmp\<close> of the differ, a parameter.
\<close>

type_synonym ('k, 'v) TupleMergeFn = "('k, 'v) Diff \<Rightarrow> ('k, 'v) Diff \<Rightarrow> ('k, 'v) Diff \<times> bool"

type_synonym 'k compareFn = "'k option \<Rightarrow> 'k option \<Rightarrow> int"

definition compareDiffKeys :: "('k, 'v) Diff \<Rightarrow> ('k, 'v) Diff \<Rightarrow> 'k compareFn \<Rightarrow> int" where
  "compareDiffKeys left right cmp = cmp (Key left) (Key right)"

text \<open>
  \<open>bytes.Equal\<close> on two value tuples: equal bytes, nil counting as empty. No tuple has
  empty bytes, so on tuples kept abstract this is equality.
\<close>

definition bytes_Equal :: "'v option \<Rightarrow> 'v option \<Rightarrow> bool" where
  "bytes_Equal a b = (a = b)"

definition equalDiffVals :: "('k, 'v) Diff \<Rightarrow> ('k, 'v) Diff \<Rightarrow> bool" where
  "equalDiffVals left right = (Type left = Type right \<and> bytes_Equal (To left) (To right))"

text \<open>
  The patch buffer is the sequence of patches sent so far; the consumer is taken to keep
  up, so a send never blocks for good. \<open>ctx\<close> tells whether the send finds the context
  done and its \<open>select\<close> takes that branch: then it returns \<open>ctx.Err()\<close> and sends
  nothing. With a context that is done and room in the buffer Go may take either
  branch; \<open>ctx\<close> is the branch taken, not the state of the context alone.
\<close>

type_synonym ('k, 'v) patch = "'k option \<times> 'v option"

definition patch_of :: "('k, 'v) Diff \<Rightarrow> ('k, 'v) patch" where
  "patch_of diff = (Key diff, To diff)"

definition sendPatch ::
  "bool \<Rightarrow> ('k, 'v) patch list \<Rightarrow> ('k, 'v) Diff \<Rightarrow> error option \<times> ('k, 'v) patch list" where
  "sendPatch ctx ps diff =
     (if ctx then (Some CtxErr, ps) else (None, ps @ [patch_of diff]))"

text \<open>
  The three statements that follow every call of \<open>Next\<close>: \<open>io.EOF\<close> clears the flag and
  the error, any other error is returned. The result is the error to return, or the new
  current diff, flag and differ.
\<close>

definition advance ::
  "('k, 'v) treeDiffer \<Rightarrow> bool \<Rightarrow> error + (('k, 'v) Diff \<times> bool \<times> ('k, 'v) treeDiffer)" where
  "advance d ok =
     (case Next d of
        ((diff, err), d') \<Rightarrow>
          (if err = Some EOF then Inr (diff, False, d')
           else (case err of Some e \<Rightarrow> Inl e | None \<Rightarrow> Inr (diff, ok, d'))))"

text \<open>
  The local state of \<open>sendPatches\<close>: the variables \<open>left\<close>, \<open>lok\<close>, \<open>right\<close>, \<open>rok\<close>, the
  two differs \<open>l\<close> and \<open>r\<close>, and the patch buffer \<open>buf\<close>.
\<close>

record ('k, 'v) walk =
  s_left :: "('k, 'v) Diff"
  s_lok :: bool
  s_l :: "('k, 'v) treeDiffer"
  s_right :: "('k, 'v) Diff"
  s_rok :: bool
  s_r :: "('k, 'v) treeDiffer"
  s_buf :: "('k, 'v) patch list"

text \<open>
  One iteration of \<open>for lok && rok\<close>: the error returned, or the state for the next test
  of the loop condition. In the case \<open>cmp == 0\<close> neither differ is advanced.
\<close>

definition walk_step ::
  "'k compareFn \<Rightarrow> ('k, 'v) TupleMergeFn \<Rightarrow> bool \<Rightarrow> ('k, 'v) walk \<Rightarrow> error + ('k, 'v) walk" where
  "walk_step cmp cb ctx s =
     (if compareDiffKeys (s_left s) (s_right s) cmp < 0 then
        (case advance (s_l s) (s_lok s) of
           Inl e \<Rightarrow> Inl e
         | Inr (d, ok, l') \<Rightarrow> Inr (s\<lparr>s_left := d, s_lok := ok, s_l := l'\<rparr>))
      else if compareDiffKeys (s_left s) (s_right s) cmp > 0 then
        (case sendPatch ctx (s_buf s) (s_right s) of
           (Some e, ps) \<Rightarrow> Inl e
         | (None, ps) \<Rightarrow>
             (case advance (s_r s) (s_rok s) of
                Inl e \<Rightarrow> Inl e
              | Inr (d, ok, r') \<Rightarrow> Inr (s\<lparr>s_right := d, s_rok := ok, s_r := r', s_buf := ps\<rparr>)))
      else if equalDiffVals (s_left s) (s_right s) then Inr s
      else
        (case cb (s_left s) (s_right s) of
           (resolved, ok) \<Rightarrow>
             (if ok then
                (case sendPatch ctx (s_buf s) resolved of
                   (Some e, ps) \<Rightarrow> Inl e
                 | (None, ps) \<Rightarrow> Inr (s\<lparr>s_buf := ps\<rparr>))
              else Inr s)))"

text \<open>
  The loop \<open>for lok && rok\<close> may run forever, so it is run on fuel, one unit per
  iteration: \<open>None\<close> says the loop has not left after that many iterations.
\<close>

fun walk_loop ::
  "nat \<Rightarrow> 'k compareFn \<Rightarrow> ('k, 'v) TupleMergeFn \<Rightarrow> bool \<Rightarrow> ('k, 'v) walk
     \<Rightarrow> (error + ('k, 'v) walk) option" where
  "walk_loop 0 cmp cb ctx s = (if s_lok s \<and> s_rok s then None else Some (Inr s))"
| "walk_loop (Suc n) cmp cb ctx s =
     (if s_lok s \<and> s_rok s then
        (case walk_step cmp cb ctx s of
           Inl e \<Rightarrow> Some (Inl e)
         | Inr s' \<Rightarrow> walk_loop n cmp cb ctx s')
      else Some (Inr s))"

text \<open>
  The loop \<open>for rok\<close> after the walk, entered with \<open>rok\<close> true: it ends with the right
  differ. The loop \<open>for lok\<close> before it breaks at once and does nothing.
\<close>

function drain_right ::
  "bool \<Rightarrow> ('k, 'v) Diff \<Rightarrow> ('k, 'v) treeDiffer \<Rightarrow> ('k, 'v) patch list
     \<Rightarrow> error + ('k, 'v) patch list" where
  "drain_right ctx right r ps =
     (case sendPatch ctx ps right of
        (Some e, ps') \<Rightarrow> Inl e
      | (None, ps') \<Rightarrow>
          (case advance r True of
             Inl e \<Rightarrow> Inl e
           | Inr (d, rok, r') \<Rightarrow> (if rok then drain_right ctx d r' ps' else Inr ps')))"
  by pat_completeness auto

termination
  apply (relation "measure (\<lambda>(ctx, right, r, ps). length r)")
   apply simp
  subgoal for ctx right r
    by (cases r rule: Next.cases) (auto simp: advance_def split: if_splits option.splits)
  done

declare drain_right.simps [simp del]

text \<open>
  What a differ yields when it is read to its end: the diffs it returns before \<open>io.EOF\<close>,
  or the first other error. This is not part of the code; the properties of the drain
  are stated with it.
\<close>

fun stream_diffs :: "('k, 'v) treeDiffer \<Rightarrow> error + ('k, 'v) Diff list" where
  "stream_diffs [] = Inr []"
| "stream_diffs (Inr d # rest) =
     (case stream_diffs rest of Inl e \<Rightarrow> Inl e | Inr ds \<Rightarrow> Inr (d # ds))"
| "stream_diffs (Inl e # rest) = (if e = EOF then Inr [] else Inl e)"

definition sendPatches_drain :: "bool \<Rightarrow> ('k, 'v) walk \<Rightarrow> error + ('k, 'v) patch list" where
  "sendPatches_drain ctx s =
     (if s_rok s then drain_right ctx (s_right s) (s_r s) (s_buf s) else Inr (s_buf s))"

definition sendPatches ::
  "nat \<Rightarrow> 'k compareFn \<Rightarrow> ('k, 'v) TupleMergeFn \<Rightarrow> bool \<Rightarrow> ('k, 'v) treeDiffer
     \<Rightarrow> ('k, 'v) treeDiffer \<Rightarrow> (error + ('k, 'v) patch list) option" where
  "sendPatches fuel cmp cb ctx l r =
     (case advance l True of
        Inl e \<Rightarrow> Some (Inl e)
      | Inr (left, lok, l') \<Rightarrow>
          (case advance r True of
             Inl e \<Rightarrow> Some (Inl e)
           | Inr (right, rok, r') \<Rightarrow>
               (case walk_loop fuel cmp cb ctx
                       \<lparr> s_left = left, s_lok = lok, s_l = l',
                         s_right = right, s_rok = rok, s_r = r', s_buf = [] \<rparr> of
                  None \<Rightarrow> None
                | Some (Inl e) \<Rightarrow> Some (Inl e)
                | Some (Inr s) \<Rightarrow> Some (sendPatches_drain ctx s))))"

section \<open>Concrete builder states\<close>

text \<open>
  A descriptor with one non-nullable uint8 field, and the builder (16 bytes of buffer,
  4 field slots) after \<open>PutUint8(0, 7)\<close>.
\<close>

definition uint8_desc :: TupleDesc where
  "uint8_desc = \<lparr>Types = [\<lparr>Enc = Uint8Enc, Nullable = False\<rparr>]\<rparr>"

definition uint8_put :: TupleBuilder where
  "uint8_put =
     \<lparr> Desc = uint8_desc, buf = 7 # replicate 15 0, pos = 1,
       tb_fields = [Some (0, 1), None, None, None] \<rparr>"

text \<open>
  A descriptor with two non-nullable uint8 fields, and the builder after
  \<open>PutUint8(0, 7)\<close>, after \<open>PutUint8(1, 8)\<close> on top of that, and after \<open>Build\<close> followed
  by \<open>PutUint8(1, 9)\<close> alone.
\<close>

definition two_uint8_desc :: TupleDesc where
  "two_uint8_desc =
     \<lparr>Types = [\<lparr>Enc = Uint8Enc, Nullable = False\<rparr>, \<lparr>Enc = Uint8Enc, Nullable = False\<rparr>]\<rparr>"

definition two_put_first :: TupleBuilder where
  "two_put_first =
     \<lparr> Desc = two_uint8_desc, buf = 7 # replicate 15 0, pos = 1,
       tb_fields = [Some (0, 1), None, None, None] \<rparr>"

definition two_put_both :: TupleBuilder where
  "two_put_both =
     \<lparr> Desc = two_uint8_desc, buf = 7 # 8 # replicate 14 0, pos = 2,
       tb_fields = [Some (0, 1), Some (1, 1), None, None] \<rparr>"

definition two_put_second_again :: TupleBuilder where
  "two_put_second_again =
     \<lparr> Desc = two_uint8_desc, buf = 9 # 8 # replicate 14 0, pos = 1,
       tb_fields = [Some (0, 1), Some (0, 1), None, None] \<rparr>"

section \<open>Concrete maps and diff streams\<close>

text \<open>
  Keys and values are natural numbers here. \<open>compare_nat\<close> orders keys, nil first.
  The two diffs change the value under key 1 from 2, to 20 and to 200. One resolver
  always takes the left diff, the other always refuses.
\<close>

fun compare_nat :: "nat compareFn" where
  "compare_nat None None = 0"
| "compare_nat None (Some y) = - 1"
| "compare_nat (Some x) None = 1"
| "compare_nat (Some x) (Some y) = (if x < y then - 1 else if x = y then 0 else 1)"

definition diff_to_20 :: "(nat, nat) Diff" where
  "diff_to_20 = \<lparr> Type = ModifiedDiff, Key = Some 1, From = Some 2, To = Some 20 \<rparr>"

definition diff_to_200 :: "(nat, nat) Diff" where
  "diff_to_200 = \<lparr> Type = ModifiedDiff, Key = Some 1, From = Some 2, To = Some 200 \<rparr>"

definition diff_key_5 :: "(nat, nat) Diff" where
  "diff_key_5 = \<lparr> Type = AddedDiff, Key = Some 5, From = None, To = Some 50 \<rparr>"

definition take_left :: "(nat, nat) TupleMergeFn" where
  "take_left left right = (left, True)"

definition refuse :: "(nat, nat) TupleMergeFn" where
  "refuse left right = (zeroDiff, False)"


text \<open>
  Diffs that add the keys 2, 3 and 7, and the states in which the walk leaves its loop
  on the streams used below.
\<close>

definition diff_key_2 :: "(nat, nat) Diff" where
  "diff_key_2 = \<lparr> Type = AddedDiff, Key = Some 2, From = None, To = Some 20 \<rparr>"

definition diff_key_3 :: "(nat, nat) Diff" where
  "diff_key_3 = \<lparr> Type = AddedDiff, Key = Some 3, From = None, To = Some 30 \<rparr>"

definition diff_key_7 :: "(nat, nat) Diff" where
  "diff_key_7 = \<lparr> Type = AddedDiff, Key = Some 7, From = None, To = Some 70 \<rparr>"

definition left_exhausted :: "(nat, nat) walk" where
  "left_exhausted =
     \<lparr> s_left = zeroDiff, s_lok = False, s_l = [],
       s_right = diff_key_3, s_rok = True, s_r = [Inr diff_key_5, Inr diff_key_7],
       s_buf = [] \<rparr>"

definition right_exhausted :: "(nat, nat) walk" where
  "right_exhausted =
     \<lparr> s_left = diff_key_3, s_lok = True, s_l = [Inr diff_key_5, Inr diff_key_7],
       s_right = zeroDiff, s_rok = False, s_r = [],
       s_buf = [(Some 2, Some 20)] \<rparr>"

text \<open>An overlay that holds \<open>maxPending\<close> pending edits, for the keys below \<open>maxPending\<close>.\<close>

definition full_overlay :: "(nat, nat) memoryMap" where
  "full_overlay = map (\<lambda>i. (i, Some 0)) [0 ..< maxPending]"

section \<open>Properties of the table writer\<close>

lemma close_indexes_None: "fst (close_indexes cl ix None) = None"
  by (induction ix) (auto split: prod.splits)

lemma guarded_write_closed:
  "closed ed \<Longrightarrow> guarded_write f ed = (Some (ErrorsNew ''table editor was closed''), ed)"
  by (simp add: guarded_write_def checkClosed_def)

lemma Close_closed: "closed (snd (Close W ed))"
  by (simp add: Close_def split: prod.splits)

text \<open>
  C10. \<open>TableWriter.Close\<close> returns nil whatever the index writers' \<open>Close\<close> return, and
  leaves the writer closed: on the closed writer each of Insert, Delete, Update,
  DiscardChanges and StatementComplete returns the error "table editor was closed" and
  changes nothing, so the writer stays closed for every later call as well.
\<close>

theorem Close_returns_nil_and_closes:
  "fst (Close W ed) = None
   \<and> closed (snd (Close W ed))
   \<and> Insert W row (snd (Close W ed))
       = (Some (ErrorsNew ''table editor was closed''), snd (Close W ed))
   \<and> Delete W row (snd (Close W ed))
       = (Some (ErrorsNew ''table editor was closed''), snd (Close W ed))
   \<and> Update W row row' (snd (Close W ed))
       = (Some (ErrorsNew ''table editor was closed''), snd (Close W ed))
   \<and> DiscardChanges W e (snd (Close W ed))
       = (Some (ErrorsNew ''table editor was closed''), snd (Close W ed))
   \<and> StatementComplete W (snd (Close W ed))
       = (Some (ErrorsNew ''table editor was closed''), snd (Close W ed))"
proof -
  have nil: "fst (Close W ed) = None"
    using close_indexes_None [of "w_Close W" "indexes ed"]
    by (auto simp: Close_def split: prod.splits)
  have cl: "closed (snd (Close W ed))"
    by (rule Close_closed)
  show ?thesis
    using nil cl
    by (simp add: Insert_def Delete_def Update_def DiscardChanges_def StatementComplete_def
        guarded_write_closed)
qed

theorem Close_returns_nil_and_closes_witness:
  "fst (Close failing_Writer \<lparr>primary = 0, indexes = [(''idx'', 7)], closed = False\<rparr>) = None
   \<and> snd (Close failing_Writer \<lparr>primary = 0, indexes = [(''idx'', 7)], closed = False\<rparr>)
       = \<lparr>primary = 0, indexes = [(''idx'', 7)], closed = True\<rparr>
   \<and> Insert failing_Writer 5 \<lparr>primary = 0, indexes = [(''idx'', 7)], closed = True\<rparr>
       = (Some (ErrorsNew ''table editor was closed''),
          \<lparr>primary = 0, indexes = [(''idx'', 7)], closed = True\<rparr>)"
proof -
  have c: "snd (Close failing_Writer \<lparr>primary = 0, indexes = [(''idx'', 7)], closed = False\<rparr>)
       = \<lparr>primary = 0, indexes = [(''idx'', 7)], closed = True\<rparr>"
    by (simp add: Close_def failing_Writer_def)
  show ?thesis
    using Close_returns_nil_and_closes
      [of failing_Writer "\<lparr>primary = 0, indexes = [(''idx'', 7)], closed = False\<rparr>" 5 5 None]
    by (simp add: c)
qed

section \<open>Properties of the tuple builder\<close>

lemma Build_check_None:
  "i + length typs \<le> length fs \<Longrightarrow>
   (Build_check typs i fs = None) = (\<forall>j<length typs. Nullable (typs ! j) \<or> fs ! (i + j) \<noteq> None)"
proof (induction typs arbitrary: i)
  case Nil
  show ?case by simp
next
  case (Cons ty typs)
  from Cons.prems have "Suc i + length typs \<le> length fs" and "i < length fs"
    by simp_all
  with Cons.IH [of "Suc i"] show ?case
    by (simp add: All_less_Suc2)
qed

lemma Build_check_Some:
  "i + length typs \<le> length fs \<Longrightarrow> Build_check typs i fs = Some e \<Longrightarrow>
   e = Panic ''cannot write NULL to non-NULL field''"
proof (induction typs arbitrary: i)
  case Nil
  then show ?case by simp
next
  case (Cons ty typs)
  from Cons.prems(1) have "Suc i + length typs \<le> length fs" and "i < length fs"
    by simp_all
  with Cons.IH [of "Suc i"] Cons.prems(2) show ?case
    by (simp split: if_splits)
qed

text \<open>
  \<open>Build\<close> tests the field array as it stands: it returns a tuple if and only if every
  non-nullable field of the descriptor has a non-nil slice there, whichever call put the
  slice there, and panics with "cannot write NULL to non-NULL field" otherwise.
\<close>

lemma Build_nil_test:
  assumes "Count (Desc tb) \<le> length (tb_fields tb)"
  shows "(\<exists>tup tb'. Build tb = Inr (tup, tb'))
           \<longleftrightarrow> (\<forall>j<length (Types (Desc tb)).
                  Nullable (Types (Desc tb) ! j) \<or> tb_fields tb ! j \<noteq> None)"
proof -
  from assms have le: "0 + length (Types (Desc tb)) \<le> length (tb_fields tb)"
    by (simp add: Count_def)
  from Build_check_None [OF le] assms show ?thesis
    by (auto simp: Build_def split: option.splits)
qed

lemma Build_nil_panic:
  assumes "Count (Desc tb) \<le> length (tb_fields tb)" and "Build tb = Inl e"
  shows "e = Panic ''cannot write NULL to non-NULL field''"
proof -
  from assms(1) have le: "0 + length (Types (Desc tb)) \<le> length (tb_fields tb)"
    by (simp add: Count_def)
  from assms obtain e' where "Build_check (Types (Desc tb)) 0 (tb_fields tb) = Some e'" and "e = e'"
    by (auto simp: Build_def split: option.splits if_splits)
  with Build_check_Some [OF le] show ?thesis
    by simp
qed

text \<open>
  C5. A tuple escapes with a non-nullable field that was not populated for it. On the
  descriptor with two non-nullable uint8 fields: after \<open>PutUint8(0, 7)\<close> and
  \<open>PutUint8(1, 8)\<close>, \<open>Build\<close> returns the tuple (7, 8). Then \<open>PutUint8(1, 9)\<close> alone
  populates field 1 and nothing populates field 0, yet \<open>Build\<close> does not fail: it
  returns the tuple (9, 9). Field 0 is the slice the first tuple left behind, and it
  now reads the byte that was written for field 1. A fresh builder with field 1 alone
  populated does fail.
\<close>

theorem Build_partial_tuple_escapes:
  "PutUint8 0 7 (NewTupleBuilder 16 4 two_uint8_desc) = Inr two_put_first
   \<and> PutUint8 1 8 two_put_first = Inr two_put_both
   \<and> Build two_put_both = Inr (Some [Some [7], Some [8]], Recycle two_put_both)
   \<and> PutUint8 1 9 (Recycle two_put_both) = Inr two_put_second_again
   \<and> Build two_put_second_again = Inr (Some [Some [9], Some [9]], Recycle two_put_second_again)
   \<and> PutUint8 1 9 (NewTupleBuilder 16 4 two_uint8_desc)
       = Inr \<lparr> Desc = two_uint8_desc, buf = 9 # replicate 15 0, pos = 1,
               tb_fields = [None, Some (0, 1), None, None] \<rparr>
   \<and> Build \<lparr> Desc = two_uint8_desc, buf = 9 # replicate 15 0, pos = 1,
               tb_fields = [None, Some (0, 1), None, None] \<rparr>
       = Inl (Panic ''cannot write NULL to non-NULL field'')"
proof -
  have a: "PutUint8 0 7 (NewTupleBuilder 16 4 two_uint8_desc) = Inr two_put_first"
    by (simp add: PutUint8_def put_encoded_def NewTupleBuilder_def two_uint8_desc_def
        two_put_first_def numeral_eq_Suc)
  have b: "PutUint8 1 8 two_put_first = Inr two_put_both"
    by (simp add: PutUint8_def put_encoded_def two_uint8_desc_def two_put_first_def
        two_put_both_def numeral_eq_Suc)
  have c: "Build two_put_both = Inr (Some [Some [7], Some [8]], Recycle two_put_both)"
    by (simp add: Build_def two_put_both_def two_uint8_desc_def Count_def NewTuple_def
        slice_bytes_def)
  have d: "PutUint8 1 9 (Recycle two_put_both) = Inr two_put_second_again"
    by (simp add: PutUint8_def put_encoded_def Recycle_def two_uint8_desc_def two_put_both_def
        two_put_second_again_def)
  have e: "Build two_put_second_again
             = Inr (Some [Some [9], Some [9]], Recycle two_put_second_again)"
    by (simp add: Build_def two_put_second_again_def two_uint8_desc_def Count_def NewTuple_def
        slice_bytes_def)
  have f: "PutUint8 1 9 (NewTupleBuilder 16 4 two_uint8_desc)
       = Inr \<lparr> Desc = two_uint8_desc, buf = 9 # replicate 15 0, pos = 1,
               tb_fields = [None, Some (0, 1), None, None] \<rparr>"
    by (simp add: PutUint8_def put_encoded_def NewTupleBuilder_def two_uint8_desc_def
        numeral_eq_Suc)
  have g: "Build \<lparr> Desc = two_uint8_desc, buf = 9 # replicate 15 0, pos = 1,
               tb_fields = [None, Some (0, 1), None, None] \<rparr>
       = Inl (Panic ''cannot write NULL to non-NULL field'')"
    by (simp add: Build_def two_uint8_desc_def)
  from a b c d e f g show ?thesis
    by blast
qed

text \<open>
  \<open>Recycle\<close> resets \<open>pos\<close> only: the field slices stay. A second \<open>Build\<close> therefore
  finds the same fields and returns the same tuple again.
\<close>

lemma Build_again:
  assumes "Build tb = Inr (tup, tb')"
  shows "Build tb' = Inr (tup, tb')"
proof -
  from assms have tb': "tb' = Recycle tb"
    by (auto simp: Build_def split: option.splits if_splits)
  have "Build (Recycle tb) = (case Build tb of Inl e \<Rightarrow> Inl e | Inr (t, b) \<Rightarrow> Inr (t, b))"
    by (simp add: Build_def Recycle_def split: option.splits)
  with assms tb' show ?thesis
    by simp
qed

text \<open>
  C6. The builder is not reset by \<open>Build\<close>. On the descriptor with one non-nullable
  uint8 field: a fresh builder refuses to build; after \<open>PutUint8(0, 7)\<close> the first
  \<open>Build\<close> returns the tuple (7); the builder it leaves behind, with no \<open>Put\<close> in
  between, builds the tuple (7) once more instead of refusing.
\<close>

theorem Build_keeps_fields:
  "Build (NewTupleBuilder 16 4 uint8_desc) = Inl (Panic ''cannot write NULL to non-NULL field'')
   \<and> PutUint8 0 7 (NewTupleBuilder 16 4 uint8_desc) = Inr uint8_put
   \<and> Build uint8_put = Inr (Some [Some [7]], Recycle uint8_put)
   \<and> Build (Recycle uint8_put) = Inr (Some [Some [7]], Recycle uint8_put)"
proof -
  have fresh: "Build (NewTupleBuilder 16 4 uint8_desc)
                 = Inl (Panic ''cannot write NULL to non-NULL field'')"
    by (simp add: Build_def NewTupleBuilder_def uint8_desc_def)
  have put: "PutUint8 0 7 (NewTupleBuilder 16 4 uint8_desc) = Inr uint8_put"
    by (simp add: PutUint8_def put_encoded_def NewTupleBuilder_def uint8_desc_def uint8_put_def
        numeral_eq_Suc)
  have first: "Build uint8_put = Inr (Some [Some [7]], Recycle uint8_put)"
    by (simp add: Build_def uint8_put_def uint8_desc_def Count_def NewTuple_def slice_bytes_def)
  from first have second: "Build (Recycle uint8_put) = Inr (Some [Some [7]], Recycle uint8_put)"
    by (rule Build_again)
  from fresh put first second show ?thesis
    by simp
qed

section \<open>Properties of meta values\<close>

lemma unat_byte:
  "unat (ucast (drop_bit (8 * k) (u :: 64 word)) :: 8 word) = (unat u div 256 ^ k) mod 256"
proof -
  have "unat (ucast (drop_bit (8 * k) u) :: 8 word) = take_bit 8 (drop_bit (8 * k) (unat u))"
    by (simp only: unsigned_ucast_eq unat_drop_bit_eq) simp
  moreover have "(2::nat) ^ (8 * k) = 256 ^ k"
    by (simp add: power_mult)
  ultimately show ?thesis
    by (simp add: take_bit_eq_mod drop_bit_eq_div)
qed

lemma horner_ucast:
  "(horner_sum ucast 256 bs :: 64 word) = of_nat (horner_sum unat 256 (bs :: 8 word list))"
  by (induction bs) simp_all

lemma horner_bytes:
  "horner_sum unat 256 (map (\<lambda>i. (ucast (drop_bit (8 * i) (u :: 64 word)) :: 8 word)) [0 ..< k])
     = unat u mod 256 ^ k"
proof (induction k)
  case 0
  show ?case by simp
next
  case (Suc k)
  have "unat u mod 256 ^ k + 256 ^ k * (unat u div 256 ^ k mod 256)
          = unat u mod (256 * 256 ^ k)"
    using mod_mult2_eq [of "unat u" "256 ^ k" 256] by (simp add: mult.commute)
  then show ?case
    using Suc by (simp add: horner_sum_append unat_byte)
qed

lemma Uint48_roundtrip:
  assumes "u \<le> maxUint48"
  shows "WriteUint48 u = Inr (map (\<lambda>i. ucast (drop_bit (8 * i) u)) [0 ..< 6])"
    and "ReadUint48 (Some (map (\<lambda>i. ucast (drop_bit (8 * i) u)) [0 ..< 6])) = Inr u"
proof -
  show "WriteUint48 u = Inr (map (\<lambda>i. ucast (drop_bit (8 * i) u)) [0 ..< 6])"
    using assms by (simp add: WriteUint48_def not_less [symmetric])
  have lt: "unat u < 2 ^ 48"
    using assms by (simp add: maxUint48_def word_le_nat_alt)
  then show "ReadUint48 (Some (map (\<lambda>i. ucast (drop_bit (8 * i) u)) [0 ..< 6])) = Inr u"
    by (simp add: ReadUint48_def horner_ucast horner_bytes)
qed

text \<open>
  Whatever has been written, six bytes never read back as a count of \<open>2^48\<close> or more.
\<close>

lemma horner_unat_bound: "horner_sum unat 256 (bs :: 8 word list) < 256 ^ length bs"
proof (induction bs)
  case Nil
  show ?case by simp
next
  case (Cons b bs)
  have b: "unat b < 256"
    using unsigned_less [of b] by simp
  from Cons have "256 * (horner_sum unat 256 bs + 1) \<le> 256 * 256 ^ length bs"
    by (intro mult_le_mono2) simp
  with b show ?case
    by simp
qed

lemma ReadUint48_bound:
  assumes "ReadUint48 v = Inr c"
  shows "c \<le> maxUint48"
proof -
  from assms obtain bs where bs: "v = Some bs" "length bs = 6" "c = horner_sum ucast 256 bs"
    by (auto simp: ReadUint48_def split: option.splits if_splits)
  from horner_unat_bound [of bs] bs have lt: "horner_sum unat 256 bs < 2 ^ 48"
    by simp
  then have "unat c = horner_sum unat 256 bs"
    using bs by (simp add: horner_ucast unat_of_nat)
  with lt show ?thesis
    by (simp add: word_le_nat_alt maxUint48_def)
qed

text \<open>
  C8 (as the claim states it, for every uint64 count) fails: the count \<open>2^48\<close> does not
  fit the six-byte field and no meta value is produced for it.
\<close>

theorem newMetaValue_counterexample:
  "newMetaValue 281474976710656 (replicate 20 0)
     = Inl (Panic ''uint is greater than max uint48'')"
  by (simp add: newMetaValue_def WriteUint48_def maxUint48_def)

text \<open>
  C8, amended. For every count below \<open>2^48\<close> and every 20-byte hash, \<open>newMetaValue\<close>
  produces a meta value whose \<open>GetCumulativeCount\<close> is the count and whose \<open>GetRef\<close> is
  the hash.
\<close>

theorem metaValue_roundtrip:
  assumes "count \<le> maxUint48" and "length ref = 20"
  shows "\<exists>mt. newMetaValue count ref = Inr mt
              \<and> GetCumulativeCount mt = Inr count \<and> GetRef mt = Inr ref"
  using assms Uint48_roundtrip [OF assms(1)]
  by (simp add: newMetaValue_def GetCumulativeCount_def GetRef_def NewTuple_def GetField_def
      metaValueCountIdx_def metaValueRefIdx_def hash_New_def)

theorem metaValue_roundtrip_witness:
  "(1000000 :: 64 word) \<le> maxUint48 \<and> length (replicate 20 (3 :: byte)) = 20
   \<and> (\<exists>mt. newMetaValue 1000000 (replicate 20 3) = Inr mt
            \<and> GetCumulativeCount mt = Inr 1000000 \<and> GetRef mt = Inr (replicate 20 3))"
proof -
  have a: "(1000000 :: 64 word) \<le> maxUint48"
    by (simp add: maxUint48_def)
  have b: "length (replicate 20 (3 :: byte)) = 20"
    by simp
  from metaValue_roundtrip [OF a b] a b show ?thesis
    by blast
qed

section \<open>Properties of the merge walk\<close>

lemma walk_step_same_key:
  assumes "compareDiffKeys (s_left s) (s_right s) cmp = 0"
  shows "\<exists>ps. walk_step cmp cb False s = Inr (s\<lparr>s_buf := ps\<rparr>)"
proof (cases "equalDiffVals (s_left s) (s_right s)")
  case True
  with assms have "walk_step cmp cb False s = Inr (s\<lparr>s_buf := s_buf s\<rparr>)"
    by (simp add: walk_step_def)
  then show ?thesis ..
next
  case False
  obtain resolved ok where cb: "cb (s_left s) (s_right s) = (resolved, ok)"
    by (cases "cb (s_left s) (s_right s)")
  show ?thesis
  proof (cases ok)
    case True
    with assms False cb
    have "walk_step cmp cb False s = Inr (s\<lparr>s_buf := s_buf s @ [patch_of resolved]\<rparr>)"
      by (simp add: walk_step_def sendPatch_def)
    then show ?thesis ..
  next
    case no: False
    with assms False cb have "walk_step cmp cb False s = Inr (s\<lparr>s_buf := s_buf s\<rparr>)"
      by (simp add: walk_step_def)
    then show ?thesis ..
  qed
qed

lemma walk_loop_stuck:
  "s_lok s \<Longrightarrow> s_rok s \<Longrightarrow> compareDiffKeys (s_left s) (s_right s) cmp = 0 \<Longrightarrow>
   walk_loop n cmp cb False s = None"
proof (induction n arbitrary: s)
  case 0
  then show ?case by simp
next
  case (Suc n)
  from walk_step_same_key [OF Suc.prems(3)]
  obtain ps where step: "walk_step cmp cb False s = Inr (s\<lparr>s_buf := ps\<rparr>)"
    by blast
  have "walk_loop n cmp cb False (s\<lparr>s_buf := ps\<rparr>) = None"
    using Suc.prems by (intro Suc.IH) simp_all
  with step Suc.prems show ?case
    by simp
qed

lemma sendPatches_stuck:
  assumes "cmp (Key dl) (Key dr) = 0"
  shows "sendPatches n cmp cb False (Inr dl # l) (Inr dr # r) = None"
proof -
  have "walk_loop n cmp cb False
          \<lparr> s_left = dl, s_lok = True, s_l = l, s_right = dr, s_rok = True, s_r = r, s_buf = [] \<rparr>
        = None"
    using assms by (intro walk_loop_stuck) (simp_all add: compareDiffKeys_def)
  then show ?thesis
    by (simp add: sendPatches_def advance_def)
qed

text \<open>
  With equal values the iteration is the \<open>continue\<close> alone: no send is reached, so a
  context that is done does not end the loop either.
\<close>

lemma walk_loop_stuck_equal:
  "s_lok s \<Longrightarrow> s_rok s \<Longrightarrow> compareDiffKeys (s_left s) (s_right s) cmp = 0 \<Longrightarrow>
   equalDiffVals (s_left s) (s_right s) \<Longrightarrow> walk_loop n cmp cb ctx s = None"
  by (induction n) (simp_all add: walk_step_def)

lemma sendPatches_stuck_equal:
  assumes "cmp (Key dl) (Key dr) = 0" and "equalDiffVals dl dr"
  shows "sendPatches n cmp cb ctx (Inr dl # l) (Inr dr # r) = None"
proof -
  have "walk_loop n cmp cb ctx
          \<lparr> s_left = dl, s_lok = True, s_l = l, s_right = dr, s_rok = True, s_r = r, s_buf = [] \<rparr>
        = None"
    using assms by (intro walk_loop_stuck_equal) (simp_all add: compareDiffKeys_def)
  then show ?thesis
    by (simp add: sendPatches_def advance_def)
qed

text \<open>
  C1. The walk does not terminate once both streams hold a diff for the same key:
  \<open>sendPatches\<close> has not returned after any number \<open>n\<close> of iterations, whether the two
  \<open>to\<close> values are equal (and then even if the context is done) or differ (with a
  resolver that accepts or one that refuses, the context not done), and also when more
  diffs follow in the streams.
\<close>

theorem sendPatches_same_key_never_returns:
  "sendPatches n compare_nat take_left ctx [Inr diff_to_20] [Inr diff_to_20] = None
   \<and> sendPatches n compare_nat take_left False [Inr diff_to_20] [Inr diff_to_200] = None
   \<and> sendPatches n compare_nat refuse False [Inr diff_to_20] [Inr diff_to_200] = None
   \<and> sendPatches n compare_nat take_left False
        [Inr diff_to_20, Inr diff_key_5] [Inr diff_to_20, Inr diff_key_5] = None"
  by (simp add: sendPatches_stuck sendPatches_stuck_equal equalDiffVals_def bytes_Equal_def
      diff_to_20_def diff_to_200_def)




lemma drain_right_Nil: "drain_right False right [] ps = Inr (ps @ [patch_of right])"
  by (subst drain_right.simps) (simp add: sendPatch_def advance_def)

lemma drain_right_Cons:
  "drain_right False right (Inr d # rest) ps = drain_right False d rest (ps @ [patch_of right])"
  by (subst drain_right.simps) (simp add: sendPatch_def advance_def)

lemma drain_right_all:
  "drain_right False right (map Inr ds) ps = Inr (ps @ map patch_of (right # ds))"
proof (induction ds arbitrary: right ps)
  case Nil
  show ?case
    by (simp add: drain_right_Nil)
next
  case (Cons d ds)
  from Cons.IH [of d "ps @ [patch_of right]"] show ?case
    by (simp add: drain_right_Cons)
qed

lemma drain_right_stream:
  "drain_right False right r ps
     = (case stream_diffs r of
          Inl e \<Rightarrow> Inl e
        | Inr ds \<Rightarrow> Inr (ps @ map patch_of (right # ds)))"
proof (induction r arbitrary: right ps rule: stream_diffs.induct)
  case 1
  show ?case
    by (simp add: drain_right_Nil)
next
  case (2 d rest)
  from "2.IH" [of d "ps @ [patch_of right]"] show ?case
    by (simp add: drain_right_Cons split: sum.splits)
next
  case (3 e rest)
  show ?case
    by (subst drain_right.simps) (simp add: sendPatch_def advance_def)
qed

lemma drain_right_done: "drain_right True right r ps = Inl CtxErr"
  by (subst drain_right.simps) (simp add: sendPatch_def)

lemma walk_loop_exit:
  "walk_loop n cmp cb ctx s0 = Some (Inr s) \<Longrightarrow> \<not> (s_lok s \<and> s_rok s)"
proof (induction n arbitrary: s0)
  case 0
  then show ?case
    by (simp split: if_splits)
next
  case (Suc n)
  show ?case
  proof (cases "s_lok s0 \<and> s_rok s0")
    case True
    with Suc.prems obtain s' where "walk_loop n cmp cb ctx s' = Some (Inr s)"
      by (auto split: sum.splits)
    then show ?thesis
      by (rule Suc.IH)
  next
    case False
    with Suc.prems show ?thesis
      by auto
  qed
qed

text \<open>
  C9. Let \<open>sendPatches\<close> read the first diff of each stream and let its main walk leave
  the loop in the state \<open>s\<close>. Then \<open>sendPatches\<close> returns, and:
  if the right stream is not exhausted (\<open>rok\<close>), the left one is, and the patches sent
  are those of the walk followed by the patch (key, to) of the current right diff and
  of every diff the right differ still returns, in stream order (should the right
  differ return an error instead, or a send take the branch of a done context, that
  error is returned);
  if the right stream is exhausted, the patches sent are those of the walk and no
  more, whatever remains of the left stream.
\<close>

theorem sendPatches_drains_right_only:
  assumes "advance l True = Inr (left, lok, l')"
    and "advance r True = Inr (right, rok, r')"
    and "walk_loop n cmp cb ctx
           \<lparr> s_left = left, s_lok = lok, s_l = l',
             s_right = right, s_rok = rok, s_r = r', s_buf = [] \<rparr> = Some (Inr s)"
  shows "(s_rok s \<and> \<not> ctx \<and> stream_diffs (s_r s) = Inr ds \<longrightarrow>
            sendPatches n cmp cb ctx l r
              = Some (Inr (s_buf s @ map patch_of (s_right s # ds))))
         \<and> (s_rok s \<and> \<not> ctx \<and> stream_diffs (s_r s) = Inl e \<longrightarrow>
            sendPatches n cmp cb ctx l r = Some (Inl e))
         \<and> (s_rok s \<and> ctx \<longrightarrow> sendPatches n cmp cb ctx l r = Some (Inl CtxErr))
         \<and> (\<not> s_rok s \<longrightarrow> sendPatches n cmp cb ctx l r = Some (Inr (s_buf s)))
         \<and> (s_rok s \<longrightarrow> \<not> s_lok s)"
proof -
  have run: "sendPatches n cmp cb ctx l r = Some (sendPatches_drain ctx s)"
    using assms by (simp add: sendPatches_def)
  have exit: "\<not> (s_lok s \<and> s_rok s)"
    using assms(3) by (rule walk_loop_exit)
  show ?thesis
  proof (cases ctx)
    case True
    with run exit show ?thesis
      by (auto simp: sendPatches_drain_def drain_right_done)
  next
    case False
    with run exit show ?thesis
      by (auto simp: sendPatches_drain_def drain_right_stream)
  qed
qed

theorem sendPatches_drains_right_only_witness:
  "advance [Inr diff_key_2] True = Inr (diff_key_2, True, [])
   \<and> advance [Inr diff_key_3, Inr diff_key_5, Inr diff_key_7] True
       = Inr (diff_key_3, True, [Inr diff_key_5, Inr diff_key_7])
   \<and> walk_loop (Suc 0) compare_nat take_left False
        \<lparr> s_left = diff_key_2, s_lok = True, s_l = [],
          s_right = diff_key_3, s_rok = True, s_r = [Inr diff_key_5, Inr diff_key_7],
          s_buf = [] \<rparr> = Some (Inr left_exhausted)
   \<and> walk_loop (Suc 0) compare_nat take_left False
        \<lparr> s_left = diff_key_3, s_lok = True, s_l = [Inr diff_key_5, Inr diff_key_7],
          s_right = diff_key_2, s_rok = True, s_r = [],
          s_buf = [] \<rparr> = Some (Inr right_exhausted)
   \<and> sendPatches (Suc 0) compare_nat take_left False
        [Inr diff_key_2] [Inr diff_key_3, Inr diff_key_5, Inr diff_key_7]
       = Some (Inr [(Some 3, Some 30), (Some 5, Some 50), (Some 7, Some 70)])
   \<and> sendPatches (Suc 0) compare_nat take_left False
        [Inr diff_key_3, Inr diff_key_5, Inr diff_key_7] [Inr diff_key_2]
       = Some (Inr [(Some 2, Some 20)])"
proof -
  have a2: "advance [Inr diff_key_2] True = Inr (diff_key_2, True, [])"
    by (simp add: advance_def)
  have a3: "advance [Inr diff_key_3, Inr diff_key_5, Inr diff_key_7] True
       = Inr (diff_key_3, True, [Inr diff_key_5, Inr diff_key_7])"
    by (simp add: advance_def)
  have wl: "walk_loop (Suc 0) compare_nat take_left False
        \<lparr> s_left = diff_key_2, s_lok = True, s_l = [],
          s_right = diff_key_3, s_rok = True, s_r = [Inr diff_key_5, Inr diff_key_7],
          s_buf = [] \<rparr> = Some (Inr left_exhausted)"
    by (simp add: walk_step_def compareDiffKeys_def advance_def left_exhausted_def
        diff_key_2_def diff_key_3_def)
  have wr: "walk_loop (Suc 0) compare_nat take_left False
        \<lparr> s_left = diff_key_3, s_lok = True, s_l = [Inr diff_key_5, Inr diff_key_7],
          s_right = diff_key_2, s_rok = True, s_r = [],
          s_buf = [] \<rparr> = Some (Inr right_exhausted)"
    by (simp add: walk_step_def compareDiffKeys_def advance_def sendPatch_def patch_of_def
        right_exhausted_def diff_key_2_def diff_key_3_def)
  have sl: "s_rok left_exhausted \<and> stream_diffs (s_r left_exhausted) = Inr [diff_key_5, diff_key_7]"
    by (simp add: left_exhausted_def)
  have pl: "s_buf left_exhausted @ map patch_of [s_right left_exhausted, diff_key_5, diff_key_7]
              = [(Some 3, Some 30), (Some 5, Some 50), (Some 7, Some 70)]"
    by (simp add: left_exhausted_def patch_of_def diff_key_3_def diff_key_5_def diff_key_7_def)
  have sr: "\<not> s_rok right_exhausted \<and> s_buf right_exhausted = [(Some 2, Some 20)]"
    by (simp add: right_exhausted_def)
  have left_run: "sendPatches (Suc 0) compare_nat take_left False
        [Inr diff_key_2] [Inr diff_key_3, Inr diff_key_5, Inr diff_key_7]
       = Some (Inr [(Some 3, Some 30), (Some 5, Some 50), (Some 7, Some 70)])"
    using sendPatches_drains_right_only [OF a2 a3 wl, of "[diff_key_5, diff_key_7]" EOF] sl pl
    by simp
  have right_run: "sendPatches (Suc 0) compare_nat take_left False
        [Inr diff_key_3, Inr diff_key_5, Inr diff_key_7] [Inr diff_key_2]
       = Some (Inr [(Some 2, Some 20)])"
    using sendPatches_drains_right_only [OF a3 a2 wr, of "[]" EOF] sr
    by simp
  from a2 a3 wl wr left_run right_run show ?thesis
    by blast
qed

text \<open>
  When one of the streams is empty from the start the walk does not iterate, so no fuel
  is needed: an empty left stream has every diff of the right stream sent, an empty
  right stream has nothing sent.
\<close>

lemma sendPatches_left_empty:
  "sendPatches n cmp cb False [] (map Inr ds) = Some (Inr (map patch_of ds))"
proof (cases ds)
  case Nil
  then show ?thesis
    by (cases n) (simp_all add: sendPatches_def advance_def sendPatches_drain_def)
next
  case (Cons d ds')
  then show ?thesis
    by (cases n) (simp_all add: sendPatches_def advance_def sendPatches_drain_def drain_right_all)
qed

lemma sendPatches_right_empty:
  "sendPatches n cmp cb ctx (map Inr ds) [] = Some (Inr [])"
proof (cases ds)
  case Nil
  then show ?thesis
    by (cases n) (simp_all add: sendPatches_def advance_def sendPatches_drain_def)
next
  case (Cons d ds')
  then show ?thesis
    by (cases n) (simp_all add: sendPatches_def advance_def sendPatches_drain_def)
qed

section \<open>Properties of mutable maps\<close>

lemma materialize_no_mutations: "materializeMutations mp [] = mp"
  by (induction mp) auto

lemma map_of_above:
  "\<forall>x\<in>set mp. (k::'k::linorder) < fst x \<Longrightarrow> map_of mp k = None"
  by (induction mp) auto

lemma not_key_above:
  "\<forall>x\<in>set mp. (k::'k::linorder) < fst x \<Longrightarrow> k \<notin> fst ` set mp"
  by auto

lemma materialize_one_lookup:
  "sorted_wrt (<) (map fst base) \<Longrightarrow> map_of (materializeMutations base [(k, v)]) k = v"
proof (induction base)
  case Nil
  show ?case by (simp split: option.splits)
next
  case (Cons p base)
  obtain ck cv where p: "p = (ck, cv)"
    by (cases p)
  from Cons.prems p have above: "\<forall>x\<in>set base. ck < fst x" and sorted: "sorted_wrt (<) (map fst base)"
    by auto
  consider "ck < k" | "k < ck" | "k = ck"
    by (cases ck k rule: linorder_cases) auto
  then show ?case
  proof cases
    case 1
    with Cons.IH [OF sorted] p show ?thesis
      by auto
  next
    case 2
    with above have "\<forall>x\<in>set base. k < fst x"
      by auto
    then have "map_of base k = None"
      by (rule map_of_above)
    with 2 p show ?thesis
      by (auto simp: materialize_no_mutations split: option.splits)
  next
    case 3
    with above have "map_of base k = None"
      by (intro map_of_above) simp
    with 3 p show ?thesis
      by (auto simp: materialize_no_mutations split: option.splits)
  qed
qed

lemma materialize_one_length:
  "sorted_wrt (<) (map fst base) \<Longrightarrow>
   length (materializeMutations base [(k, v)])
     = (if k \<in> fst ` set base then (if v = None then length base - 1 else length base)
        else (if v = None then length base else length base + 1))"
proof (induction base)
  case Nil
  show ?case by (simp split: option.splits)
next
  case (Cons p base)
  obtain ck cv where p: "p = (ck, cv)"
    by (cases p)
  from Cons.prems p have above: "\<forall>x\<in>set base. ck < fst x" and sorted: "sorted_wrt (<) (map fst base)"
    by auto
  consider "ck < k" | "k < ck" | "k = ck"
    by (cases ck k rule: linorder_cases) auto
  then show ?case
  proof cases
    case 1
    have "k \<in> fst ` set base \<Longrightarrow> base \<noteq> []"
      by auto
    with 1 Cons.IH [OF sorted] p show ?thesis
      by (cases base) (auto split: option.splits)
  next
    case 2
    with above have "\<forall>x\<in>set base. k < fst x"
      by auto
    then have "k \<notin> fst ` set base"
      by (rule not_key_above)
    with 2 p show ?thesis
      by (auto simp: materialize_no_mutations split: option.splits)
  next
    case 3
    with 3 p show ?thesis
      by (auto simp: materialize_no_mutations split: option.splits)
  qed
qed

lemma Put_on_new:
  "fst (MutableMap_Put (newMutableMap base) k v) = \<lparr> mut_m = base, mut_overlay = [(k, v)] \<rparr>"
  by (simp add: MutableMap_Put_def newMutableMap_def newMemoryMap_def memoryMap_Put_def)

text \<open>
  C3. For every base map (keys strictly increasing), key \<open>k\<close> and value \<open>v\<close> (\<open>None\<close> the
  tombstone): the map materialized from \<open>MutableMap(base)\<close> after \<open>Put(k, v)\<close> answers
  \<open>Get(k)\<close> with \<open>v\<close> (the pair \<open>(k, v)\<close>, or the nil pair for a tombstone), and its count
  is the base count plus one for an insert, the base count for an update, the base count
  minus one for a tombstone on a present key and the base count for a tombstone on an
  absent key.
\<close>

theorem put_then_materialize:
  assumes "sorted_wrt (<) (map fst base)"
  shows "Map_Get (MutableMap_Map (fst (MutableMap_Put (newMutableMap base) k v))) k cb s
           = cb (if v = None then None else Some k) v s
         \<and> Map_Count (MutableMap_Map (fst (MutableMap_Put (newMutableMap base) k v)))
           = (if k \<in> fst ` set base
              then (if v = None then Map_Count base - 1 else Map_Count base)
              else (if v = None then Map_Count base else Map_Count base + 1))"
  using materialize_one_lookup [OF assms, of k v] materialize_one_length [OF assms, of k v]
  by (auto simp: Put_on_new MutableMap_Map_def mutations_def Map_Get_def Map_Count_def
      split: option.splits)

theorem put_then_materialize_witness:
  "sorted_wrt (<) (map fst [(2::nat, 20::nat), (4, 40)])
   \<and> MutableMap_Map (fst (MutableMap_Put (newMutableMap [(2::nat, 20::nat), (4, 40)]) 4 None))
       = [(2, 20)]
   \<and> Map_Count (MutableMap_Map
        (fst (MutableMap_Put (newMutableMap [(2::nat, 20::nat), (4, 40)]) 4 None))) = 1
   \<and> Map_Count (MutableMap_Map
        (fst (MutableMap_Put (newMutableMap [(2::nat, 20::nat), (4, 40)]) 3 (Some 30)))) = 3"
proof -
  have a: "sorted_wrt (<) (map fst [(2::nat, 20::nat), (4, 40)])"
    by simp
  have b: "MutableMap_Map (fst (MutableMap_Put (newMutableMap [(2::nat, 20::nat), (4, 40)]) 4 None))
             = [(2, 20)]"
    by (simp add: Put_on_new MutableMap_Map_def mutations_def)
  have c: "Map_Count (MutableMap_Map
        (fst (MutableMap_Put (newMutableMap [(2::nat, 20::nat), (4, 40)]) 4 None))) = 1"
    using put_then_materialize [OF a, of 4 None "\<lambda>k v s. (None, s)" "()"]
    by (simp add: Map_Count_def)
  have d: "Map_Count (MutableMap_Map
        (fst (MutableMap_Put (newMutableMap [(2::nat, 20::nat), (4, 40)]) 3 (Some 30)))) = 3"
    using put_then_materialize [OF a, of 3 "Some 30" "\<lambda>k v s. (None, s)" "()"]
    by (simp add: Map_Count_def)
  from a b c d show ?thesis
    by blast
qed

text \<open>
  C4. If the overlay holds an entry for the key, \<open>Get\<close> and \<open>Has\<close> answer from it and the
  base map plays no part: a tombstone makes \<open>Get\<close> pass the nil pair to the callback and
  \<open>Has\<close> return false, a value is passed on with the key and \<open>Has\<close> returns true,
  whatever the base map holds. Only without an entry is the answer that of the base map.
\<close>

theorem Get_Has_overlay_first:
  "(map_of (mut_overlay mut) key = Some None \<longrightarrow>
      MutableMap_Get mut key cb s = cb None None s
      \<and> MutableMap_Has mut key = (False, None))
   \<and> (map_of (mut_overlay mut) key = Some (Some v) \<longrightarrow>
      MutableMap_Get mut key cb s = cb (Some key) (Some v) s
      \<and> MutableMap_Has mut key = (True, None))
   \<and> (map_of (mut_overlay mut) key \<noteq> None \<longrightarrow>
      MutableMap_Get (mut\<lparr>mut_m := other\<rparr>) key cb s = MutableMap_Get mut key cb s
      \<and> MutableMap_Has (mut\<lparr>mut_m := other\<rparr>) key = MutableMap_Has mut key)
   \<and> (map_of (mut_overlay mut) key = None \<longrightarrow>
      MutableMap_Get mut key cb s = Map_Get (mut_m mut) key cb s
      \<and> MutableMap_Has mut key = (map_of (mut_m mut) key \<noteq> None, None))"
  by (auto simp: MutableMap_Get_def MutableMap_Has_def list_Get_def Map_Get_def
      split: option.splits)

theorem Get_Has_overlay_first_witness:
  "map_of (mut_overlay \<lparr> mut_m = [(3::nat, 30::nat)], mut_overlay = [(3, None)] \<rparr>) 3 = Some None
   \<and> MutableMap_Has \<lparr> mut_m = [(3::nat, 30::nat)], mut_overlay = [(3, None)] \<rparr> 3 = (False, None)
   \<and> map_of (mut_overlay \<lparr> mut_m = [(3::nat, 30::nat)], mut_overlay = [(3, Some 31)] \<rparr>) 3
       = Some (Some 31)
   \<and> MutableMap_Has \<lparr> mut_m = [(3::nat, 30::nat)], mut_overlay = [(3, Some 31)] \<rparr> 3
       = (True, None)
   \<and> map_of (mut_overlay \<lparr> mut_m = [(3::nat, 30::nat)], mut_overlay = [(4, None)] \<rparr>) 3 = None
   \<and> MutableMap_Has \<lparr> mut_m = [(3::nat, 30::nat)], mut_overlay = [(4, None)] \<rparr> 3
       = (True, None)"
proof -
  have a: "MutableMap_Has \<lparr> mut_m = [(3::nat, 30::nat)], mut_overlay = [(3, None)] \<rparr> 3
             = (False, None)"
    using Get_Has_overlay_first
      [of "\<lparr> mut_m = [(3::nat, 30::nat)], mut_overlay = [(3, None)] \<rparr>" 3
          "\<lambda>k v s. (None, s)" "()" 0 "[]"]
    by simp
  have b: "MutableMap_Has \<lparr> mut_m = [(3::nat, 30::nat)], mut_overlay = [(3, Some 31)] \<rparr> 3
             = (True, None)"
    using Get_Has_overlay_first
      [of "\<lparr> mut_m = [(3::nat, 30::nat)], mut_overlay = [(3, Some 31)] \<rparr>" 3
          "\<lambda>k v s. (None, s)" "()" 31 "[]"]
    by simp
  have c: "MutableMap_Has \<lparr> mut_m = [(3::nat, 30::nat)], mut_overlay = [(4, None)] \<rparr> 3
             = (True, None)"
    using Get_Has_overlay_first
      [of "\<lparr> mut_m = [(3::nat, 30::nat)], mut_overlay = [(4, None)] \<rparr>" 3
          "\<lambda>k v s. (None, s)" "()" 0 "[]"]
    by simp
  from a b c show ?thesis
    by simp
qed

lemma full_overlay_length: "length full_overlay = maxPending"
  by (simp add: full_overlay_def)

lemma full_overlay_new_key: "map_of full_overlay maxPending = None"
  by (simp add: full_overlay_def map_of_eq_None_iff image_image)

text \<open>
  C7 (as the claim states it) fails: on a mutable map whose overlay holds \<open>maxPending\<close>
  pending edits, the \<open>Put\<close> of a key that is not among them returns nil.
\<close>

theorem Put_full_overlay_counterexample:
  "length full_overlay = maxPending
   \<and> map_of full_overlay maxPending = None
   \<and> snd (MutableMap_Put \<lparr> mut_m = [], mut_overlay = full_overlay \<rparr> maxPending (Some 1)) = None"
  by (simp add: full_overlay_length full_overlay_new_key MutableMap_Put_def)

lemma list_Put_lookup: "map_of (list_Put key val mm) key = Some val"
  by (induction mm) auto

lemma list_Put_others: "k \<noteq> key \<Longrightarrow> map_of (list_Put key val mm) k = map_of mm k"
  by (induction mm) auto

lemma list_Put_new_length:
  "map_of mm key = None \<Longrightarrow> length (list_Put key val mm) = length mm + 1"
  by (induction mm) (auto split: if_splits)

text \<open>
  C7, amended. \<open>MutableMap.Put\<close> does not bound the overlay and never returns an error.
  For every mutable map, also one whose overlay already holds \<open>maxPending\<close> pending
  edits or more, \<open>Put\<close> returns nil and the edit is accepted: the base map is left
  alone, the overlay holds the entry for the key and keeps its entries for all other
  keys, \<open>Get\<close> and \<open>Has\<close> on the mutable map answer from the new entry, and a key that
  was not pending makes the overlay one entry longer.
\<close>

theorem Put_accepts_and_returns_nil:
  "snd (MutableMap_Put mut key val) = None
   \<and> mut_m (fst (MutableMap_Put mut key val)) = mut_m mut
   \<and> map_of (mut_overlay (fst (MutableMap_Put mut key val))) key = Some val
   \<and> (k \<noteq> key \<longrightarrow>
        map_of (mut_overlay (fst (MutableMap_Put mut key val))) k = map_of (mut_overlay mut) k)
   \<and> MutableMap_Get (fst (MutableMap_Put mut key val)) key cb s
       = cb (if val = None then None else Some key) val s
   \<and> MutableMap_Has (fst (MutableMap_Put mut key val)) key = (val \<noteq> None, None)
   \<and> (map_of (mut_overlay mut) key = None \<longrightarrow>
        length (mut_overlay (fst (MutableMap_Put mut key val))) = length (mut_overlay mut) + 1)"
  by (simp add: MutableMap_Put_def memoryMap_Put_def MutableMap_Get_def MutableMap_Has_def
      list_Get_def list_Put_lookup list_Put_others list_Put_new_length)

theorem Put_accepts_and_returns_nil_witness:
  "length full_overlay = maxPending
   \<and> map_of full_overlay maxPending = None
   \<and> snd (MutableMap_Put \<lparr> mut_m = [], mut_overlay = full_overlay \<rparr> maxPending (Some 7)) = None
   \<and> MutableMap_Has
        (fst (MutableMap_Put \<lparr> mut_m = [], mut_overlay = full_overlay \<rparr> maxPending (Some 7)))
        maxPending = (True, None)
   \<and> length (mut_overlay
        (fst (MutableMap_Put \<lparr> mut_m = [], mut_overlay = full_overlay \<rparr> maxPending (Some 7))))
       = maxPending + 1"
  using Put_accepts_and_returns_nil
      [of "\<lparr> mut_m = [], mut_overlay = full_overlay \<rparr>" maxPending "Some 7" 0
          "\<lambda>k v s. (None, s)" "()"]
    full_overlay_length full_overlay_new_key
  by simp

end
